theory Spec2Isabelle
  imports Main
begin

section \<open>Window locator\<close>

text \<open>
  A Python \<open>str\<close> is a sequence of Unicode code points. Window titles are modelled as
  lists of code points; an ASCII literal is written \<open>str ''Steam''\<close>.
\<close>

type_synonym pystr = "nat list"

definition str :: "string \<Rightarrow> pystr" where
  "str s = map of_char s"

text \<open>
  The characters removed by \<open>str.strip()\<close> without argument: the code points that
  Python classifies as whitespace.
\<close>

definition isspace :: "nat \<Rightarrow> bool" where
  "isspace c \<longleftrightarrow>
     (0x09 \<le> c \<and> c \<le> 0x0D) \<or> (0x1C \<le> c \<and> c \<le> 0x20) \<or> c = 0x85 \<or> c = 0xA0 \<or>
     c = 0x1680 \<or> (0x2000 \<le> c \<and> c \<le> 0x200A) \<or> c = 0x2028 \<or> c = 0x2029 \<or>
     c = 0x202F \<or> c = 0x205F \<or> c = 0x3000"

definition strip :: "pystr \<Rightarrow> pystr" where
  "strip s = rev (dropWhile isspace (rev (dropWhile isspace s)))"

text \<open>
  \<open>buf = create_unicode_buffer(512); GetWindowTextW(hwnd, buf, 512); buf.value\<close>:
  the call copies at most 511 characters of the window text and terminates them with
  NUL; \<open>buf.value\<close> is the buffer's content up to the first NUL. The buffer counts
  UTF-16 code units; the model takes one unit per code point, as for every title of the
  Basic Multilingual Plane.
\<close>

definition buf_value :: "pystr \<Rightarrow> pystr" where
  "buf_value text = takeWhile (\<lambda>c. c \<noteq> 0) (take 511 text)"

text \<open>
  A top-level window as \<open>EnumWindows\<close> presents it: the handle passed to the callback
  (a pointer value, 0 for NULL), the \<open>BOOL\<close> that \<open>IsWindowVisible\<close> returns for it and
  the text that \<open>GetWindowTextW\<close> reads from it.
\<close>

record window =
  hwnd :: int
  IsWindowVisible :: int
  WindowText :: pystr

text \<open>
  A handle as a Python value: ctypes converts an \<open>HWND\<close> (a \<open>c_void_p\<close>) to \<open>None\<close> when
  it is NULL and to an \<open>int\<close> otherwise. \<open>truthy\<close> is the truth value Python gives such a
  value in \<open>if h\<close> and \<open>not h\<close>.
\<close>

type_synonym pyhandle = "int option"

definition c_void_p :: "int \<Rightarrow> pyhandle" where
  "c_void_p p = (if p = 0 then None else Some p)"

definition truthy :: "pyhandle \<Rightarrow> bool" where
  "truthy h \<longleftrightarrow> h \<noteq> None \<and> h \<noteq> Some 0"

text \<open>
  The callback of \<open>find_window_by_title_exact\<close>: it returns \<open>True\<close> to continue the
  enumeration and \<open>False\<close> to stop it, and appends a match to \<open>result\<close>.
\<close>

definition enum_proc :: "pystr \<Rightarrow> window \<Rightarrow> pyhandle list \<Rightarrow> bool \<times> pyhandle list" where
  "enum_proc title w result =
     (if IsWindowVisible w = 0 then (True, result)
      else if strip (buf_value (WindowText w)) = title
           then (False, result @ [c_void_p (hwnd w)])
      else (True, result))"

text \<open>
  The test the callback applies to a window, as one predicate: the window is visible and
  its text, as read through the buffer and stripped, is the title looked for.
\<close>

definition title_matches :: "pystr \<Rightarrow> window \<Rightarrow> bool" where
  "title_matches title w \<longleftrightarrow>
     IsWindowVisible w \<noteq> 0 \<and> strip (buf_value (WindowText w)) = title"

text \<open>
  \<open>EnumWindows\<close> calls the callback on each top-level window in turn until it returns
  \<open>False\<close> or the windows are exhausted.
\<close>

fun EnumWindows :: "(window \<Rightarrow> 's \<Rightarrow> bool \<times> 's) \<Rightarrow> window list \<Rightarrow> 's \<Rightarrow> 's" where
  "EnumWindows f [] s = s"
| "EnumWindows f (w # ws) s =
     (case f w s of (True, s') \<Rightarrow> EnumWindows f ws s' | (False, s') \<Rightarrow> s')"

definition find_window_by_title_exact :: "pystr \<Rightarrow> window list \<Rightarrow> pyhandle" where
  "find_window_by_title_exact title ws =
     (case EnumWindows (enum_proc title) ws [] of [] \<Rightarrow> None | h # _ \<Rightarrow> h)"

section \<open>Exceptions\<close>

text \<open>
  A computation that may raise returns \<open>exn + 'a\<close>, with \<open>Inl\<close> the exception raised.
  Only subclasses of \<open>Exception\<close> are modelled: \<open>OSError\<close>, which \<open>get_window_rect\<close>
  raises itself, \<open>UnicodeEncodeError\<close>, which \<open>print\<close> raises for text that the stream
  cannot encode, and whatever else a foreign call or a toolkit call raises.
\<close>

datatype exn = OSError string | UnicodeEncodeError | OtherException string

definition bind_exn :: "exn + 'a \<Rightarrow> ('a \<Rightarrow> exn + 'b) \<Rightarrow> exn + 'b" where
  "bind_exn m f = (case m of Inl e \<Rightarrow> Inl e | Inr x \<Rightarrow> f x)"

text \<open>\<open>try: m except Exception: h\<close>\<close>

definition try_except :: "exn + 'a \<Rightarrow> (exn \<Rightarrow> exn + 'a) \<Rightarrow> exn + 'a" where
  "try_except m h = (case m of Inl e \<Rightarrow> h e | Inr x \<Rightarrow> Inr x)"

section \<open>Operating-system queries of one tick\<close>

record RECT =
  left :: int
  top :: int
  right :: int
  bottom :: int

text \<open>
  What the window system answers during one tick. Each query is made at most once per
  tick, so one outcome per query describes the tick: \<open>winId\<close> is the outcome of
  \<open>int(self.winId())\<close>, \<open>IsIconic\<close> and \<open>GetWindowRect\<close> answer for the handle they are
  given (a \<open>BOOL\<close>, and a \<open>BOOL\<close> with the rectangle written through the pointer), and
  \<open>GetForegroundWindow\<close> is the foreground handle. Any of them may raise instead.
\<close>

record os =
  winId :: "exn + int"
  IsIconic :: "pyhandle \<Rightarrow> exn + int"
  GetForegroundWindow :: "exn + pyhandle"
  GetWindowRect :: "pyhandle \<Rightarrow> exn + int \<times> RECT"

definition get_window_rect :: "os \<Rightarrow> pyhandle \<Rightarrow> exn + int \<times> int \<times> int \<times> int" where
  "get_window_rect q h =
     bind_exn (GetWindowRect q h) (\<lambda>(ok, r).
       if ok = 0 then Inl (OSError ''GetWindowRect failed'')
       else Inr (left r, top r, right r, bottom r))"

text \<open>The body of the \<open>try\<close> block of \<open>is_window_covered_or_not_foreground\<close>.\<close>

definition covered_try :: "os \<Rightarrow> pyhandle \<Rightarrow> pyhandle \<Rightarrow> exn + bool" where
  "covered_try q hwnd_steam hwnd_overlay =
     (if \<not> truthy hwnd_steam then Inr True
      else bind_exn (IsIconic q hwnd_steam) (\<lambda>iconic.
        if iconic \<noteq> 0 then Inr True
        else bind_exn (GetForegroundWindow q) (\<lambda>fg.
          if fg = hwnd_steam then Inr False
          else if truthy hwnd_overlay \<and> fg = hwnd_overlay then Inr False
          else Inr True)))"

definition is_window_covered_or_not_foreground :: "os \<Rightarrow> pyhandle \<Rightarrow> pyhandle \<Rightarrow> exn + bool" where
  "is_window_covered_or_not_foreground q hwnd_steam hwnd_overlay =
     try_except (covered_try q hwnd_steam hwnd_overlay) (\<lambda>e. Inr True)"

text \<open>
  The code never asks whether a handle still names a window. For a handle whose window
  was destroyed the window system answers as follows: \<open>IsIconic\<close> returns 0,
  \<open>GetWindowRect\<close> returns 0, and the handle is not the foreground window.
\<close>

definition stale_handle :: "os \<Rightarrow> pyhandle \<Rightarrow> bool" where
  "stale_handle q h \<longleftrightarrow>
     truthy h \<and> IsIconic q h = Inr 0 \<and>
     (case GetWindowRect q h of Inl e \<Rightarrow> False | Inr (ok, r) \<Rightarrow> ok = 0) \<and>
     GetForegroundWindow q \<noteq> Inr h"

section \<open>Overlay tracker\<close>

text \<open>
  The fields of \<open>OverlayWindow\<close> that \<open>_tick\<close> reads or writes, with the widget's own
  visibility and position. A shell is represented by what its \<open>isVisible()\<close> returns;
  \<open>None\<close> stands for a \<open>None\<close> entry of the list.
\<close>

record overlay =
  hwnd_parent :: pyhandle
  rel_offset :: "int \<times> int"
  isVisible :: bool
  pos :: "int \<times> int"
  shells :: "bool option list"

text \<open>
  The commands a tick sends to the widget, in the order sent, and the widget's methods
  \<open>hide()\<close>, \<open>show()\<close> and \<open>move(x, y)\<close> as updates of its visibility and position.
  The widget's own methods, \<open>isVisible()\<close> among them, are taken not to raise, and
  \<open>move\<close> to accept the Python integers it is given.
\<close>

datatype command = Hide | Show | Move int int

definition hide :: "overlay \<Rightarrow> overlay" where
  "hide s = s\<lparr>isVisible := False\<rparr>"

definition show_widget :: "overlay \<Rightarrow> overlay" where
  "show_widget s = s\<lparr>isVisible := True\<rparr>"

definition move :: "int \<Rightarrow> int \<Rightarrow> overlay \<Rightarrow> overlay" where
  "move x y s = s\<lparr>pos := (x, y)\<rparr>"

text \<open>The overlay's own handle: \<open>0\<close> when looking it up raises.\<close>

definition own_handle :: "os \<Rightarrow> exn + pyhandle" where
  "own_handle q = try_except (bind_exn (winId q) (\<lambda>n. Inr (Some n))) (\<lambda>e. Inr (Some 0))"

text \<open>Step 1 of \<open>_tick\<close>: hide or show on a change only.\<close>

definition visibility_step :: "bool \<Rightarrow> overlay \<Rightarrow> command list \<times> overlay" where
  "visibility_step covered s =
     (if covered \<and> isVisible s then ([Hide], hide s)
      else if \<not> covered \<and> \<not> isVisible s then ([Show], show_widget s)
      else ([], s))"

text \<open>Step 2 of \<open>_tick\<close>: the body of the \<open>try\<close> block, and the block with its handler.\<close>

definition follow_try :: "os \<Rightarrow> overlay \<Rightarrow> exn + command list \<times> overlay" where
  "follow_try q s =
     (if truthy (hwnd_parent s)
      then bind_exn (get_window_rect q (hwnd_parent s)) (\<lambda>(l, t, r, b).
             case rel_offset s of (dx, dy) \<Rightarrow>
               Inr ([Move (r + dx) (t + dy)], move (r + dx) (t + dy) s))
      else Inr ([], s))"

definition follow_step :: "os \<Rightarrow> overlay \<Rightarrow> exn + command list \<times> overlay" where
  "follow_step q s = try_except (follow_try q s) (\<lambda>e. Inr ([], s))"

text \<open>Step 3 of \<open>_tick\<close>: drop the shells that were closed.\<close>

definition cleanup_shells :: "overlay \<Rightarrow> overlay" where
  "cleanup_shells s =
     (if shells s \<noteq> []
      then s\<lparr>shells := filter (\<lambda>w. case w of None \<Rightarrow> False | Some v \<Rightarrow> v) (shells s)\<rparr>
      else s)"

definition tick :: "os \<Rightarrow> overlay \<Rightarrow> exn + command list \<times> overlay" where
  "tick q s =
     bind_exn (own_handle q) (\<lambda>hwnd_overlay.
     bind_exn (is_window_covered_or_not_foreground q (hwnd_parent s) hwnd_overlay) (\<lambda>covered.
     case visibility_step covered s of (c1, s1) \<Rightarrow>
     bind_exn (follow_step q s1) (\<lambda>(c2, s2).
     Inr (c1 @ c2, cleanup_shells s2))))"

text \<open>
  The timer calls \<open>_tick\<close> again and again; \<open>ticks\<close> runs one tick per element of a list
  of query outcomes and collects the commands of each tick.
\<close>

fun ticks :: "os list \<Rightarrow> overlay \<Rightarrow> exn + command list list \<times> overlay" where
  "ticks [] s = Inr ([], s)"
| "ticks (q # qs) s =
     bind_exn (tick q s) (\<lambda>(c, s').
     bind_exn (ticks qs s') (\<lambda>(cs, s'').
     Inr (c # cs, s'')))"

text \<open>
  The covered flag a tick computes, as a plain boolean: the exception handler of
  \<open>is_window_covered_or_not_foreground\<close> makes it total.
\<close>

definition covered_of :: "os \<Rightarrow> overlay \<Rightarrow> bool" where
  "covered_of q s =
     (case bind_exn (own_handle q) (is_window_covered_or_not_foreground q (hwnd_parent s)) of
        Inl e \<Rightarrow> True | Inr c \<Rightarrow> c)"

section \<open>Program start\<close>










section \<open>Properties of the locator\<close>

subsection \<open>Stripping\<close>

lemma strip_no_leading: "dropWhile isspace (strip s) = strip s"
proof -
  let ?a = "dropWhile isspace s"
  have split: "?a = strip s @ rev (takeWhile isspace (rev ?a))"
    unfolding strip_def by (metis rev_append rev_rev_ident takeWhile_dropWhile_id)
  show ?thesis
  proof (cases "strip s = []")
    case True
    then show ?thesis by simp
  next
    case False
    then have "?a \<noteq> []" using split by (metis append_is_Nil_conv)
    then have "\<not> isspace (hd ?a)" by (rule hd_dropWhile)
    moreover have "hd ?a = hd (strip s)" using split False by (metis hd_append2)
    ultimately show ?thesis by (simp add: dropWhile_eq_self_iff)
  qed
qed

lemma strip_no_trailing: "dropWhile isspace (rev (strip s)) = rev (strip s)"
  by (simp add: strip_def)

lemma strip_idem: "strip (strip s) = strip s"
proof -
  have "strip (strip s) = rev (dropWhile isspace (rev (dropWhile isspace (strip s))))"
    by (simp add: strip_def)
  also have "\<dots> = rev (dropWhile isspace (rev (strip s)))"
    by (simp only: strip_no_leading)
  also have "\<dots> = strip s"
    by (simp only: strip_no_trailing rev_rev_ident)
  finally show ?thesis .
qed

lemma EnumWindows_enum_proc:
  "EnumWindows (enum_proc title) ws acc =
     (case List.find (title_matches title) ws of
        None \<Rightarrow> acc | Some w \<Rightarrow> acc @ [c_void_p (hwnd w)])"
  by (induction ws arbitrary: acc) (simp_all add: enum_proc_def title_matches_def)

lemma find_window_by_title_exact_find:
  "find_window_by_title_exact title ws =
     (case List.find (title_matches title) ws of
        None \<Rightarrow> None | Some w \<Rightarrow> c_void_p (hwnd w))"
  by (simp add: find_window_by_title_exact_def EnumWindows_enum_proc split: option.split)


lemma find_first:
  "\<forall>u\<in>set pre. \<not> P u \<Longrightarrow> P w \<Longrightarrow> List.find P (pre @ w # post) = Some w"
  by (induction pre) simp_all

subsection \<open>Claims about the locator\<close>

text \<open>
  Claim find_window_first_visible_match, as stated, compares the window's whole title. The code compares what
  \<open>GetWindowTextW\<close> wrote into a buffer of 512 characters: a visible window whose title
  is \<open>Steam\<close>, 506 spaces and \<open>X\<close> (512 characters) is returned for the query
  \<open>Steam\<close>, although its stripped title is not \<open>Steam\<close>.
\<close>

theorem find_window_truncated_title_counterexample:
  "find_window_by_title_exact (str ''Steam'')
     [\<lparr>hwnd = 66, IsWindowVisible = 1,
       WindowText = str ''Steam'' @ replicate 506 32 @ str ''X''\<rparr>] = Some 66
   \<and> strip (str ''Steam'' @ replicate 506 32 @ str ''X'') \<noteq> str ''Steam''"
proof -
  have sp: "dropWhile isspace (replicate 506 32 @ ys) = dropWhile isspace ys" for ys
    by (rule dropWhile_append2) (simp add: isspace_def)
  have a: "strip (buf_value (str ''Steam'' @ replicate 506 32 @ str ''X'')) = str ''Steam''"
    by (simp add: str_def strip_def buf_value_def sp) (simp add: isspace_def)
  have b: "strip (str ''Steam'' @ replicate 506 32 @ str ''X'') \<noteq> str ''Steam''"
    by (simp add: str_def strip_def isspace_def)
  show ?thesis
    using a b by (simp add: find_window_by_title_exact_def enum_proc_def c_void_p_def)
qed

text \<open>
  Claim find_window_first_visible_match, amended: \<open>find_window_by_title_exact\<close> returns the handle of the first window
  in enumeration order that is visible and whose title, as read through the buffer of 512
  characters and then stripped, equals the query. It returns \<open>None\<close> when no window
  passes that test, and a window it returns is a visible one that passes it. The handle
  is the Python value of the \<open>HWND\<close> (\<open>c_void_p\<close>).
\<close>

theorem find_window_first_visible_match:
  "((\<forall>w\<in>set ws. \<not> title_matches t w) \<longrightarrow> find_window_by_title_exact t ws = None) \<and>
   (\<forall>pre w post. ws = pre @ w # post \<and> title_matches t w \<and> (\<forall>u\<in>set pre. \<not> title_matches t u)
      \<longrightarrow> find_window_by_title_exact t ws = c_void_p (hwnd w)) \<and>
   (\<forall>h. find_window_by_title_exact t ws = Some h
      \<longrightarrow> (\<exists>w\<in>set ws. hwnd w = h \<and> IsWindowVisible w \<noteq> 0 \<and>
                       strip (buf_value (WindowText w)) = t))"
proof (intro conjI allI impI)
  assume "\<forall>w\<in>set ws. \<not> title_matches t w"
  then have "List.find (title_matches t) ws = None" by (simp add: find_None_iff)
  then show "find_window_by_title_exact t ws = None"
    by (simp add: find_window_by_title_exact_find)
next
  fix pre w post
  assume h: "ws = pre @ w # post \<and> title_matches t w \<and> (\<forall>u\<in>set pre. \<not> title_matches t u)"
  then have "List.find (title_matches t) (pre @ w # post) = Some w"
    by (simp add: find_first)
  with h show "find_window_by_title_exact t ws = c_void_p (hwnd w)"
    by (simp add: find_window_by_title_exact_find)
next
  fix h
  assume "find_window_by_title_exact t ws = Some h"
  then obtain w where f: "List.find (title_matches t) ws = Some w" and c: "c_void_p (hwnd w) = Some h"
    by (auto simp: find_window_by_title_exact_find split: option.splits)
  from f have "w \<in> set ws" "title_matches t w"
    by (auto simp: find_Some_iff)
  moreover from c have "hwnd w = h" by (simp add: c_void_p_def split: if_splits)
  ultimately show "\<exists>w\<in>set ws. hwnd w = h \<and> IsWindowVisible w \<noteq> 0 \<and>
                       strip (buf_value (WindowText w)) = t"
    by (auto simp: title_matches_def)
qed

theorem find_window_first_visible_match_witness:
  "find_window_by_title_exact (str ''Steam'')
     [\<lparr>hwnd = 5, IsWindowVisible = 0, WindowText = str ''Steam''\<rparr>,
      \<lparr>hwnd = 6, IsWindowVisible = 1, WindowText = str ''Steamy''\<rparr>,
      \<lparr>hwnd = 7, IsWindowVisible = 1, WindowText = str '' Steam ''\<rparr>,
      \<lparr>hwnd = 8, IsWindowVisible = 1, WindowText = str ''Steam''\<rparr>] = Some 7"
proof -
  let ?pre = "[\<lparr>hwnd = 5, IsWindowVisible = 0, WindowText = str ''Steam''\<rparr>,
      \<lparr>hwnd = 6, IsWindowVisible = 1, WindowText = str ''Steamy''\<rparr>]"
  let ?w = "\<lparr>hwnd = 7, IsWindowVisible = 1, WindowText = str '' Steam ''\<rparr>"
  let ?post = "[\<lparr>hwnd = 8, IsWindowVisible = 1, WindowText = str ''Steam''\<rparr>]"
  have m: "title_matches (str ''Steam'') ?w"
    by (simp add: title_matches_def str_def strip_def isspace_def buf_value_def)
  have n: "\<forall>u\<in>set ?pre. \<not> title_matches (str ''Steam'') u"
    by (simp add: title_matches_def str_def strip_def isspace_def buf_value_def)
  from find_window_first_visible_match [of "?pre @ ?w # ?post" "str ''Steam''"] m n
  have "find_window_by_title_exact (str ''Steam'') (?pre @ ?w # ?post) = c_void_p (hwnd ?w)"
    by blast
  then show ?thesis by (simp add: c_void_p_def)
qed

text \<open>
  Claim find_window_Foo: when every window is titled \<open>Foo\<close>, \<open>Foo\<close> with a trailing space, \<open>Foo\<close>
  with a leading space, or \<open>Foobar\<close>, looking for \<open>Foo\<close> returns the first visible
  window with one of the first three titles: these are the titles that strip to \<open>Foo\<close>,
  and a window titled \<open>Foobar\<close> is never returned.
\<close>

theorem find_window_Foo:
  assumes "\<forall>w\<in>set ws. WindowText w \<in> {str ''Foo'', str ''Foo '', str '' Foo'', str ''Foobar''}"
  shows "find_window_by_title_exact (str ''Foo'') ws =
           (case List.find (\<lambda>w. IsWindowVisible w \<noteq> 0 \<and>
                                 WindowText w \<in> {str ''Foo'', str ''Foo '', str '' Foo''}) ws of
              None \<Rightarrow> None | Some w \<Rightarrow> c_void_p (hwnd w))
         \<and> (\<forall>w\<in>set ws. strip (WindowText w) = str ''Foo'' \<longleftrightarrow> WindowText w \<noteq> str ''Foobar'')
         \<and> (\<forall>h. find_window_by_title_exact (str ''Foo'') ws = Some h \<longrightarrow>
              (\<exists>w\<in>set ws. hwnd w = h \<and> strip (WindowText w) = str ''Foo'' \<and>
                           WindowText w \<noteq> str ''Foobar''))"
proof -
  have fb: "str ''Foobar'' \<notin> {str ''Foo'', str ''Foo '', str '' Foo''}"
    by (simp add: str_def)
  have raw: "strip (str ''Foo'') = str ''Foo''" "strip (str ''Foo '') = str ''Foo''"
    "strip (str '' Foo'') = str ''Foo''" "strip (str ''Foobar'') \<noteq> str ''Foo''"
    by (simp_all add: str_def strip_def isspace_def)
  have eqv: "title_matches (str ''Foo'') w \<longleftrightarrow>
      IsWindowVisible w \<noteq> 0 \<and> WindowText w \<in> {str ''Foo'', str ''Foo '', str '' Foo''}"
    if "w \<in> set ws" for w
  proof -
    from that assms
    consider "WindowText w = str ''Foo''" | "WindowText w = str ''Foo ''"
      | "WindowText w = str '' Foo''" | "WindowText w = str ''Foobar''"
      by blast
    then show ?thesis
      by cases (simp_all add: title_matches_def strip_def buf_value_def isspace_def str_def)
  qed
  have f: "List.find (title_matches (str ''Foo'')) ws =
        List.find (\<lambda>w. IsWindowVisible w \<noteq> 0 \<and>
                        WindowText w \<in> {str ''Foo'', str ''Foo '', str '' Foo''}) ws"
    by (rule find_cong) (simp_all add: eqv)
  have one: "find_window_by_title_exact (str ''Foo'') ws =
           (case List.find (\<lambda>w. IsWindowVisible w \<noteq> 0 \<and>
                                 WindowText w \<in> {str ''Foo'', str ''Foo '', str '' Foo''}) ws of
              None \<Rightarrow> None | Some w \<Rightarrow> c_void_p (hwnd w))"
    by (simp only: find_window_by_title_exact_find f)
  have two: "\<forall>w\<in>set ws. strip (WindowText w) = str ''Foo'' \<longleftrightarrow> WindowText w \<noteq> str ''Foobar''"
  proof
    fix w assume "w \<in> set ws"
    with assms
    consider "WindowText w = str ''Foo''" | "WindowText w = str ''Foo ''"
      | "WindowText w = str '' Foo''" | "WindowText w = str ''Foobar''"
      by blast
    then show "strip (WindowText w) = str ''Foo'' \<longleftrightarrow> WindowText w \<noteq> str ''Foobar''"
      by cases (simp_all add: strip_def isspace_def str_def)
  qed
  have three: "\<exists>w\<in>set ws. hwnd w = h \<and> strip (WindowText w) = str ''Foo'' \<and>
                           WindowText w \<noteq> str ''Foobar''"
    if "find_window_by_title_exact (str ''Foo'') ws = Some h" for h
  proof -
    from that obtain w where f: "List.find (title_matches (str ''Foo'')) ws = Some w"
      and c: "c_void_p (hwnd w) = Some h"
      by (auto simp: find_window_by_title_exact_find split: option.splits)
    from f have w: "w \<in> set ws" "title_matches (str ''Foo'') w"
      by (auto simp: find_Some_iff)
    from c have "hwnd w = h" by (simp add: c_void_p_def split: if_splits)
    moreover from w eqv fb have "WindowText w \<noteq> str ''Foobar''" by metis
    moreover from this two w have "strip (WindowText w) = str ''Foo''" by blast
    ultimately show ?thesis using w by blast
  qed
  from one two three show ?thesis by blast
qed

theorem find_window_Foo_witness:
  "find_window_by_title_exact (str ''Foo'')
     [\<lparr>hwnd = 1, IsWindowVisible = 1, WindowText = str ''Foobar''\<rparr>,
      \<lparr>hwnd = 2, IsWindowVisible = 0, WindowText = str ''Foo''\<rparr>,
      \<lparr>hwnd = 3, IsWindowVisible = 1, WindowText = str ''Foo ''\<rparr>,
      \<lparr>hwnd = 4, IsWindowVisible = 1, WindowText = str '' Foo''\<rparr>] = Some 3"
proof -
  let ?ws = "[\<lparr>hwnd = 1, IsWindowVisible = 1, WindowText = str ''Foobar''\<rparr>,
      \<lparr>hwnd = 2, IsWindowVisible = 0, WindowText = str ''Foo''\<rparr>,
      \<lparr>hwnd = 3, IsWindowVisible = 1, WindowText = str ''Foo ''\<rparr>,
      \<lparr>hwnd = 4, IsWindowVisible = 1, WindowText = str '' Foo''\<rparr>]"
  have a: "\<forall>w\<in>set ?ws.
      WindowText w \<in> {str ''Foo'', str ''Foo '', str '' Foo'', str ''Foobar''}"
    by simp
  have "find_window_by_title_exact (str ''Foo'') ?ws =
      (case List.find (\<lambda>w. IsWindowVisible w \<noteq> 0 \<and>
                            WindowText w \<in> {str ''Foo'', str ''Foo '', str '' Foo''}) ?ws of
         None \<Rightarrow> None | Some w \<Rightarrow> c_void_p (hwnd w))"
    using find_window_Foo [OF a] by blast
  then show ?thesis by (simp add: str_def c_void_p_def)
qed

text \<open>
  Claim find_window_untrimmed_query: a query title with leading or trailing whitespace is never found, whatever
  the windows are: the window's text is stripped, the query is not.
\<close>

theorem find_window_untrimmed_query: "strip t \<noteq> t \<Longrightarrow> find_window_by_title_exact t ws = None"
proof -
  assume ne: "strip t \<noteq> t"
  have "List.find (title_matches t) ws = None"
  proof (rule ccontr)
    assume "List.find (title_matches t) ws \<noteq> None"
    then obtain w where "title_matches t w" by (auto simp: find_None_iff)
    then have "strip (buf_value (WindowText w)) = t" by (simp add: title_matches_def)
    then have "strip t = t" using strip_idem by metis
    with ne show False by simp
  qed
  then show ?thesis by (simp add: find_window_by_title_exact_find)
qed

theorem find_window_untrimmed_query_witness:
  "strip (str ''Steam '') \<noteq> str ''Steam '' \<and>
   find_window_by_title_exact (str ''Steam '')
     [\<lparr>hwnd = 66, IsWindowVisible = 1, WindowText = str ''Steam ''\<rparr>] = None"
proof -
  have a: "strip (str ''Steam '') \<noteq> str ''Steam ''"
    by (simp add: str_def strip_def isspace_def)
  from find_window_untrimmed_query [OF a] a show ?thesis by blast
qed

section \<open>Properties of the tracker\<close>

lemma covered_total:
  "\<exists>c. is_window_covered_or_not_foreground q hs ho = Inr c"
  by (cases "covered_try q hs ho")
     (auto simp: is_window_covered_or_not_foreground_def try_except_def)

lemma own_handle_total: "\<exists>n. own_handle q = Inr (Some n)"
  by (cases "winId q") (simp_all add: own_handle_def try_except_def bind_exn_def)

lemma covered_of_eq:
  "own_handle q = Inr ho \<Longrightarrow>
   is_window_covered_or_not_foreground q (hwnd_parent s) ho = Inr (covered_of q s)"
  using covered_total [of q "hwnd_parent s" ho]
  by (auto simp: covered_of_def bind_exn_def)

lemma follow_step_cases:
  "follow_step q s = Inr ([], s) \<or>
   (\<exists>l t r b dx dy. truthy (hwnd_parent s) \<and> get_window_rect q (hwnd_parent s) = Inr (l, t, r, b) \<and>
      rel_offset s = (dx, dy) \<and>
      follow_step q s = Inr ([Move (r + dx) (t + dy)], move (r + dx) (t + dy) s))"
  by (cases "get_window_rect q (hwnd_parent s)"; cases "rel_offset s")
     (auto simp: follow_step_def follow_try_def try_except_def bind_exn_def)

lemma tick_eq:
  "tick q s =
     Inr (fst (visibility_step (covered_of q s) s) @
            fst (projr (follow_step q (snd (visibility_step (covered_of q s) s)))),
          cleanup_shells (snd (projr (follow_step q (snd (visibility_step (covered_of q s) s))))))"
proof -
  obtain n where o: "own_handle q = Inr (Some n)" using own_handle_total by blast
  note c = covered_of_eq [OF o, of s]
  obtain c1 s1 where v: "visibility_step (covered_of q s) s = (c1, s1)" by fastforce
  obtain c2 s2 where f: "follow_step q s1 = Inr (c2, s2)"
    using follow_step_cases [of q s1] by auto
  show ?thesis
    by (simp add: tick_def o c v f bind_exn_def)
qed

lemma visibility_step_simps:
  "isVisible (snd (visibility_step c s)) = (\<not> c)"
  "Hide \<in> set (fst (visibility_step c s)) \<longleftrightarrow> c \<and> isVisible s"
  "Show \<in> set (fst (visibility_step c s)) \<longleftrightarrow> \<not> c \<and> \<not> isVisible s"
  "Move x y \<notin> set (fst (visibility_step c s))"
  "hwnd_parent (snd (visibility_step c s)) = hwnd_parent s"
  "rel_offset (snd (visibility_step c s)) = rel_offset s"
  "pos (snd (visibility_step c s)) = pos s"
  by (auto simp: visibility_step_def hide_def show_widget_def)

lemma follow_step_simps:
  "isVisible (snd (projr (follow_step q s))) = isVisible s"
  "Hide \<notin> set (fst (projr (follow_step q s)))"
  "Show \<notin> set (fst (projr (follow_step q s)))"
  "hwnd_parent (snd (projr (follow_step q s))) = hwnd_parent s"
  using follow_step_cases [of q s] by (auto simp: move_def)

lemma cleanup_shells_simps:
  "isVisible (cleanup_shells s) = isVisible s"
  "hwnd_parent (cleanup_shells s) = hwnd_parent s"
  "pos (cleanup_shells s) = pos s"
  "rel_offset (cleanup_shells s) = rel_offset s"
  by (simp_all add: cleanup_shells_def)

lemma tick_visible:
  "tick q s = Inr (cs, s') \<Longrightarrow> isVisible s' = (\<not> covered_of q s)"
  by (auto simp: tick_eq cleanup_shells_simps follow_step_simps visibility_step_simps)

lemma tick_hwnd_parent:
  "tick q s = Inr (cs, s') \<Longrightarrow> hwnd_parent s' = hwnd_parent s"
  by (auto simp: tick_eq cleanup_shells_simps follow_step_simps visibility_step_simps)

lemma tick_commands:
  "tick q s = Inr (cs, s') \<Longrightarrow>
     (Hide \<in> set cs \<longleftrightarrow> covered_of q s \<and> isVisible s) \<and>
     (Show \<in> set cs \<longleftrightarrow> \<not> covered_of q s \<and> \<not> isVisible s)"
  by (auto simp: tick_eq follow_step_simps visibility_step_simps)

lemma covered_of_cong:
  "hwnd_parent s' = hwnd_parent s \<Longrightarrow> covered_of q s' = covered_of q s"
  by (simp add: covered_of_def)

lemma ticks_steady:
  "isVisible s = (\<not> c) \<Longrightarrow> \<forall>q\<in>set qs. covered_of q s = c \<Longrightarrow>
   \<exists>css s'. ticks qs s = Inr (css, s') \<and> (\<forall>cs\<in>set css. Hide \<notin> set cs \<and> Show \<notin> set cs) \<and>
            isVisible s' = (\<not> c) \<and> hwnd_parent s' = hwnd_parent s"
proof (induction qs arbitrary: s)
  case Nil
  then show ?case by simp
next
  case (Cons q qs)
  obtain cs s1 where t: "tick q s = Inr (cs, s1)" by (simp add: tick_eq)
  from Cons.prems have cq: "covered_of q s = c" by simp
  from tick_visible [OF t] cq have v1: "isVisible s1 = (\<not> c)" by simp
  from tick_hwnd_parent [OF t] have h1: "hwnd_parent s1 = hwnd_parent s" .
  from tick_commands [OF t] cq Cons.prems(1) have n: "Hide \<notin> set cs \<and> Show \<notin> set cs" by auto
  have "\<forall>q\<in>set qs. covered_of q s1 = c"
    using Cons.prems(2) covered_of_cong [OF h1] by simp
  from Cons.IH [OF v1 this] obtain css s' where
    r: "ticks qs s1 = Inr (css, s')" "\<forall>cs\<in>set css. Hide \<notin> set cs \<and> Show \<notin> set cs"
       "isVisible s' = (\<not> c)" "hwnd_parent s' = hwnd_parent s1"
    by blast
  have "ticks (q # qs) s = Inr (cs # css, s')" by (simp add: t r(1) bind_exn_def)
  with r n h1 show ?case by auto
qed

subsection \<open>Claims about the covered flag\<close>

text \<open>
  Claim C1, as stated, fails for an invalid handle that is not null: the target's window
  1 was destroyed and the overlay 2 is in the foreground, and the covered flag is false.
\<close>

theorem covered_stale_handle_counterexample:
  "stale_handle
     \<lparr>winId = Inr 2, IsIconic = (\<lambda>h. Inr 0), GetForegroundWindow = Inr (Some 2),
      GetWindowRect = (\<lambda>h. Inr (0, \<lparr>left = 0, top = 0, right = 0, bottom = 0\<rparr>))\<rparr>
     (Some 1) \<and>
   is_window_covered_or_not_foreground
     \<lparr>winId = Inr 2, IsIconic = (\<lambda>h. Inr 0), GetForegroundWindow = Inr (Some 2),
      GetWindowRect = (\<lambda>h. Inr (0, \<lparr>left = 0, top = 0, right = 0, bottom = 0\<rparr>))\<rparr>
     (Some 1) (Some 2) = Inr False"
  by (simp add: stale_handle_def is_window_covered_or_not_foreground_def covered_try_def
        try_except_def bind_exn_def truthy_def)

text \<open>
  Claim C1, amended: the covered flag is true when the target handle is absent (\<open>None\<close>
  or 0), when the target is minimized, and when the foreground window is neither the
  target nor the known overlay.
\<close>

theorem covered_fail_safe:
  "\<not> truthy hwnd_steam \<or>
   (\<exists>b. IsIconic q hwnd_steam = Inr b \<and> b \<noteq> 0) \<or>
   (GetForegroundWindow q \<noteq> Inr hwnd_steam \<and>
    \<not> (truthy hwnd_overlay \<and> GetForegroundWindow q = Inr hwnd_overlay))
   \<Longrightarrow> is_window_covered_or_not_foreground q hwnd_steam hwnd_overlay = Inr True"
  by (cases "IsIconic q hwnd_steam"; cases "GetForegroundWindow q")
     (auto simp: is_window_covered_or_not_foreground_def covered_try_def try_except_def
        bind_exn_def)

theorem covered_fail_safe_witness:
  "is_window_covered_or_not_foreground
     \<lparr>winId = Inr 2, IsIconic = (\<lambda>h. Inr 0), GetForegroundWindow = Inr (Some 3),
      GetWindowRect = (\<lambda>h. Inr (0, \<lparr>left = 0, top = 0, right = 0, bottom = 0\<rparr>))\<rparr>
     (Some 1) (Some 2) = Inr True \<and>
   is_window_covered_or_not_foreground
     \<lparr>winId = Inr 2, IsIconic = (\<lambda>h. Inr 0), GetForegroundWindow = Inr (Some 2),
      GetWindowRect = (\<lambda>h. Inr (0, \<lparr>left = 0, top = 0, right = 0, bottom = 0\<rparr>))\<rparr>
     None (Some 2) = Inr True \<and>
   is_window_covered_or_not_foreground
     \<lparr>winId = Inr 2, IsIconic = (\<lambda>h. Inr 1), GetForegroundWindow = Inr (Some 1),
      GetWindowRect = (\<lambda>h. Inr (0, \<lparr>left = 0, top = 0, right = 0, bottom = 0\<rparr>))\<rparr>
     (Some 1) (Some 2) = Inr True"
  using covered_fail_safe [of "Some 1"
     "\<lparr>winId = Inr 2, IsIconic = (\<lambda>h. Inr 0), GetForegroundWindow = Inr (Some 3),
      GetWindowRect = (\<lambda>h. Inr (0, \<lparr>left = 0, top = 0, right = 0, bottom = 0\<rparr>))\<rparr>" "Some 2"]
    covered_fail_safe [of None
     "\<lparr>winId = Inr 2, IsIconic = (\<lambda>h. Inr 0), GetForegroundWindow = Inr (Some 2),
      GetWindowRect = (\<lambda>h. Inr (0, \<lparr>left = 0, top = 0, right = 0, bottom = 0\<rparr>))\<rparr>" "Some 2"]
    covered_fail_safe [of "Some 1"
     "\<lparr>winId = Inr 2, IsIconic = (\<lambda>h. Inr 1), GetForegroundWindow = Inr (Some 1),
      GetWindowRect = (\<lambda>h. Inr (0, \<lparr>left = 0, top = 0, right = 0, bottom = 0\<rparr>))\<rparr>" "Some 2"]
  by (simp add: truthy_def)

text \<open>
  Claim C2, as stated, fails for a minimized target: with the overlay in the foreground
  and \<open>IsIconic\<close> true for the target, the covered flag is true.
\<close>

theorem covered_minimized_foreground_counterexample:
  "is_window_covered_or_not_foreground
     \<lparr>winId = Inr 2, IsIconic = (\<lambda>h. Inr 1), GetForegroundWindow = Inr (Some 2),
      GetWindowRect = (\<lambda>h. Inr (0, \<lparr>left = 0, top = 0, right = 0, bottom = 0\<rparr>))\<rparr>
     (Some 1) (Some 2) = Inr True"
  by (simp add: is_window_covered_or_not_foreground_def covered_try_def try_except_def
        bind_exn_def truthy_def)

text \<open>
  Claim C2, amended: when the target handle is present, the target is not minimized and
  the foreground window is the target or the known overlay, the covered flag is false;
  when the target is minimized, the covered flag is true whatever the foreground window
  is.
\<close>

theorem covered_foreground_exempt:
  "(truthy hwnd_steam \<and> IsIconic q hwnd_steam = Inr 0 \<and>
    (GetForegroundWindow q = Inr hwnd_steam \<or>
     (truthy hwnd_overlay \<and> GetForegroundWindow q = Inr hwnd_overlay))
    \<longrightarrow> is_window_covered_or_not_foreground q hwnd_steam hwnd_overlay = Inr False) \<and>
   ((\<exists>b. IsIconic q hwnd_steam = Inr b \<and> b \<noteq> 0)
    \<longrightarrow> is_window_covered_or_not_foreground q hwnd_steam hwnd_overlay = Inr True)"
  by (auto simp: is_window_covered_or_not_foreground_def covered_try_def try_except_def
        bind_exn_def)

theorem covered_foreground_exempt_witness:
  "is_window_covered_or_not_foreground
     \<lparr>winId = Inr 2, IsIconic = (\<lambda>h. Inr 0), GetForegroundWindow = Inr (Some 2),
      GetWindowRect = (\<lambda>h. Inr (0, \<lparr>left = 0, top = 0, right = 0, bottom = 0\<rparr>))\<rparr>
     (Some 1) (Some 2) = Inr False \<and>
   is_window_covered_or_not_foreground
     \<lparr>winId = Inr 2, IsIconic = (\<lambda>h. Inr 1), GetForegroundWindow = Inr (Some 1),
      GetWindowRect = (\<lambda>h. Inr (0, \<lparr>left = 0, top = 0, right = 0, bottom = 0\<rparr>))\<rparr>
     (Some 1) (Some 2) = Inr True"
  using covered_foreground_exempt [of "Some 1"
     "\<lparr>winId = Inr 2, IsIconic = (\<lambda>h. Inr 0), GetForegroundWindow = Inr (Some 2),
      GetWindowRect = (\<lambda>h. Inr (0, \<lparr>left = 0, top = 0, right = 0, bottom = 0\<rparr>))\<rparr>" "Some 2"]
    covered_foreground_exempt [of "Some 1"
     "\<lparr>winId = Inr 2, IsIconic = (\<lambda>h. Inr 1), GetForegroundWindow = Inr (Some 1),
      GetWindowRect = (\<lambda>h. Inr (0, \<lparr>left = 0, top = 0, right = 0, bottom = 0\<rparr>))\<rparr>" "Some 2"]
  by (simp add: truthy_def)

subsection \<open>Claims about the tick\<close>

text \<open>
  Claim tick_moves_overlay: in a tick that reads the target's rectangle \<open>(l, t, r, b)\<close> successfully, the
  last command is a move to \<open>(r + dx, t + dy)\<close>, and that is the overlay's position
  afterwards. The witness is the rectangle (100, 50, 300, 400) with the offset (-617, 7),
  which moves the overlay to (-317, 57).
\<close>

theorem tick_moves_overlay:
  assumes "truthy (hwnd_parent s)"
    and "get_window_rect q (hwnd_parent s) = Inr (l, t, r, b)"
    and "rel_offset s = (dx, dy)"
  shows "\<exists>cs s'. tick q s = Inr (cs, s') \<and>
           cs = fst (visibility_step (covered_of q s) s) @ [Move (r + dx) (t + dy)] \<and>
           pos s' = (r + dx, t + dy)"
proof -
  let ?s1 = "snd (visibility_step (covered_of q s) s)"
  have "follow_step q ?s1 = Inr ([Move (r + dx) (t + dy)], move (r + dx) (t + dy) ?s1)"
    using assms
    by (simp add: follow_step_def follow_try_def try_except_def bind_exn_def
          visibility_step_simps)
  then show ?thesis
    by (simp add: tick_eq cleanup_shells_simps move_def)
qed

theorem tick_moves_overlay_witness:
  "\<exists>cs s'.
     tick \<lparr>winId = Inr 2, IsIconic = (\<lambda>h. Inr 0), GetForegroundWindow = Inr (Some 1),
           GetWindowRect = (\<lambda>h. Inr (1, \<lparr>left = 100, top = 50, right = 300, bottom = 400\<rparr>))\<rparr>
          \<lparr>hwnd_parent = Some 1, rel_offset = (- 617, 7), isVisible = True, pos = (0, 0),
           shells = []\<rparr> = Inr (cs, s') \<and>
     last cs = Move (- 317) 57 \<and> pos s' = (- 317, 57)"
proof -
  let ?q = "\<lparr>winId = Inr 2, IsIconic = (\<lambda>h. Inr 0), GetForegroundWindow = Inr (Some 1),
         GetWindowRect = (\<lambda>h. Inr (1, \<lparr>left = 100, top = 50, right = 300, bottom = 400\<rparr>))\<rparr>"
  let ?s = "\<lparr>hwnd_parent = Some 1, rel_offset = (- 617, 7), isVisible = True, pos = (0, 0),
         shells = []\<rparr>"
  have a: "truthy (hwnd_parent ?s)" by (simp add: truthy_def)
  have b: "get_window_rect ?q (hwnd_parent ?s) = Inr (100, 50, 300, 400)"
    by (simp add: get_window_rect_def bind_exn_def)
  have c: "rel_offset ?s = (- 617, 7)" by simp
  from tick_moves_overlay [OF a b c] show ?thesis by auto
qed

text \<open>
  Claim tick_visibility_on_change: a tick hides the overlay iff it is covered and visible, shows it iff it is
  not covered and hidden, and leaves it visible iff it is not covered; further ticks with
  the same covered flag send neither command.
\<close>

theorem tick_visibility_on_change:
  "\<exists>cs s'. tick q s = Inr (cs, s') \<and>
     (Hide \<in> set cs \<longleftrightarrow> covered_of q s \<and> isVisible s) \<and>
     (Show \<in> set cs \<longleftrightarrow> \<not> covered_of q s \<and> \<not> isVisible s) \<and>
     isVisible s' = (\<not> covered_of q s) \<and>
     (\<forall>qs. (\<forall>q'\<in>set qs. covered_of q' s = covered_of q s) \<longrightarrow>
        (\<exists>css s''. ticks qs s' = Inr (css, s'') \<and>
           (\<forall>c\<in>set css. Hide \<notin> set c \<and> Show \<notin> set c) \<and>
           isVisible s'' = (\<not> covered_of q s)))"
proof -
  obtain cs s' where t: "tick q s = Inr (cs, s')" by (simp add: tick_eq)
  note v = tick_visible [OF t] and h = tick_hwnd_parent [OF t] and c = tick_commands [OF t]
  have "\<exists>css s''. ticks qs s' = Inr (css, s'') \<and>
           (\<forall>c\<in>set css. Hide \<notin> set c \<and> Show \<notin> set c) \<and>
           isVisible s'' = (\<not> covered_of q s)"
    if "\<forall>q'\<in>set qs. covered_of q' s = covered_of q s" for qs
  proof -
    from that have "\<forall>q'\<in>set qs. covered_of q' s' = covered_of q s"
      using covered_of_cong [OF h] by simp
    from ticks_steady [OF v this] show ?thesis by blast
  qed
  with t v c show ?thesis by blast
qed

theorem tick_visibility_on_change_witness:
  "\<exists>cs s' css s''.
     tick \<lparr>winId = Inr 2, IsIconic = (\<lambda>h. Inr 1), GetForegroundWindow = Inr (Some 1),
           GetWindowRect = (\<lambda>h. Inr (0, \<lparr>left = 0, top = 0, right = 0, bottom = 0\<rparr>))\<rparr>
          \<lparr>hwnd_parent = Some 1, rel_offset = (- 617, 7), isVisible = True, pos = (0, 0),
           shells = []\<rparr> = Inr (cs, s') \<and>
     Hide \<in> set cs \<and> \<not> isVisible s' \<and>
     ticks [\<lparr>winId = Inr 2, IsIconic = (\<lambda>h. Inr 0), GetForegroundWindow = Inr (Some 3),
             GetWindowRect = (\<lambda>h. Inr (0, \<lparr>left = 0, top = 0, right = 0, bottom = 0\<rparr>))\<rparr>]
           s' = Inr (css, s'') \<and>
     (\<forall>c\<in>set css. Hide \<notin> set c \<and> Show \<notin> set c) \<and> \<not> isVisible s''"
proof -
  let ?q = "\<lparr>winId = Inr 2, IsIconic = (\<lambda>h. Inr 1), GetForegroundWindow = Inr (Some 1),
           GetWindowRect = (\<lambda>h. Inr (0, \<lparr>left = 0, top = 0, right = 0, bottom = 0\<rparr>))\<rparr>"
  let ?q' = "\<lparr>winId = Inr 2, IsIconic = (\<lambda>h. Inr 0), GetForegroundWindow = Inr (Some 3),
             GetWindowRect = (\<lambda>h. Inr (0, \<lparr>left = 0, top = 0, right = 0, bottom = 0\<rparr>))\<rparr>"
  let ?s = "\<lparr>hwnd_parent = Some 1, rel_offset = (- 617, 7), isVisible = True, pos = (0, 0),
           shells = []\<rparr>"
  have a: "covered_of ?q ?s"
    by (simp add: covered_of_def own_handle_def is_window_covered_or_not_foreground_def
          covered_try_def try_except_def bind_exn_def truthy_def)
  have b: "covered_of ?q' ?s"
    by (simp add: covered_of_def own_handle_def is_window_covered_or_not_foreground_def
          covered_try_def try_except_def bind_exn_def truthy_def)
  have c: "\<forall>q'\<in>set [?q']. covered_of q' ?s = covered_of ?q ?s"
    using a b by simp
  from tick_visibility_on_change [of ?q ?s] a c show ?thesis
    by (metis select_convs(3))
qed

text \<open>
  Claim tick_rect_failure_decoupled: when reading the target's rectangle fails, the tick sends no move, the
  position stays what it was, and the commands and the visibility are those of the
  visibility step alone.
\<close>

theorem tick_rect_failure_decoupled:
  assumes "get_window_rect q (hwnd_parent s) = Inl e"
  shows "\<exists>cs s'. tick q s = Inr (cs, s') \<and>
           (\<forall>x y. Move x y \<notin> set cs) \<and> pos s' = pos s \<and>
           cs = fst (visibility_step (covered_of q s) s) \<and>
           isVisible s' = isVisible (snd (visibility_step (covered_of q s) s)) \<and>
           isVisible s' = (\<not> covered_of q s)"
proof -
  let ?s1 = "snd (visibility_step (covered_of q s) s)"
  have "follow_step q ?s1 = Inr ([], ?s1)"
    using assms
    by (simp add: follow_step_def follow_try_def try_except_def bind_exn_def
          visibility_step_simps)
  then show ?thesis
    by (simp add: tick_eq cleanup_shells_simps visibility_step_simps)
qed

theorem tick_rect_failure_decoupled_witness:
  "\<exists>cs s'.
     tick \<lparr>winId = Inr 2, IsIconic = (\<lambda>h. Inr 0), GetForegroundWindow = Inr (Some 1),
           GetWindowRect = (\<lambda>h. Inr (0, \<lparr>left = 0, top = 0, right = 0, bottom = 0\<rparr>))\<rparr>
          \<lparr>hwnd_parent = Some 1, rel_offset = (- 617, 7), isVisible = False,
           pos = (- 317, 57), shells = []\<rparr> = Inr (cs, s') \<and>
     cs = [Show] \<and> pos s' = (- 317, 57) \<and> isVisible s'"
proof -
  let ?q = "\<lparr>winId = Inr 2, IsIconic = (\<lambda>h. Inr 0), GetForegroundWindow = Inr (Some 1),
         GetWindowRect = (\<lambda>h. Inr (0, \<lparr>left = 0, top = 0, right = 0, bottom = 0\<rparr>))\<rparr>"
  let ?s = "\<lparr>hwnd_parent = Some 1, rel_offset = (- 617, 7), isVisible = False,
         pos = (- 317, 57), shells = []\<rparr>"
  have a: "get_window_rect ?q (hwnd_parent ?s) = Inl (OSError ''GetWindowRect failed'')"
    by (simp add: get_window_rect_def bind_exn_def)
  have b: "\<not> covered_of ?q ?s"
    by (simp add: covered_of_def own_handle_def is_window_covered_or_not_foreground_def
          covered_try_def try_except_def bind_exn_def truthy_def)
  from tick_rect_failure_decoupled [OF a] b show ?thesis
    by (auto simp: visibility_step_def show_widget_def)
qed

text \<open>
  Claim tick_never_raises: whatever the queries answer or raise, the tick returns normally; and when
  the covered computation raises, in particular when the minimized check or the
  foreground read raises, the covered flag is true.
\<close>

theorem tick_never_raises:
  "(\<exists>cs s'. tick q s = Inr (cs, s')) \<and>
   ((\<exists>e. covered_try q hwnd_steam hwnd_overlay = Inl e) \<longrightarrow>
      is_window_covered_or_not_foreground q hwnd_steam hwnd_overlay = Inr True) \<and>
   ((\<exists>e. IsIconic q hwnd_steam = Inl e) \<or> (\<exists>e. GetForegroundWindow q = Inl e) \<longrightarrow>
      is_window_covered_or_not_foreground q hwnd_steam hwnd_overlay = Inr True)"
proof (intro conjI impI)
  show "\<exists>cs s'. tick q s = Inr (cs, s')" by (simp add: tick_eq)
next
  assume "\<exists>e. covered_try q hwnd_steam hwnd_overlay = Inl e"
  then show "is_window_covered_or_not_foreground q hwnd_steam hwnd_overlay = Inr True"
    by (auto simp: is_window_covered_or_not_foreground_def try_except_def)
next
  assume "(\<exists>e. IsIconic q hwnd_steam = Inl e) \<or> (\<exists>e. GetForegroundWindow q = Inl e)"
  then show "is_window_covered_or_not_foreground q hwnd_steam hwnd_overlay = Inr True"
    by (cases "IsIconic q hwnd_steam"; cases "GetForegroundWindow q")
       (auto simp: is_window_covered_or_not_foreground_def covered_try_def try_except_def
          bind_exn_def)
qed

theorem tick_never_raises_witness:
  "(\<exists>cs s'.
     tick \<lparr>winId = Inl (OtherException ''winId''), IsIconic = (\<lambda>h. Inl (OtherException ''IsIconic'')),
           GetForegroundWindow = Inl (OtherException ''GetForegroundWindow''),
           GetWindowRect = (\<lambda>h. Inl (OtherException ''GetWindowRect''))\<rparr>
          \<lparr>hwnd_parent = Some 1, rel_offset = (- 617, 7), isVisible = True, pos = (0, 0),
           shells = []\<rparr> = Inr (cs, s')) \<and>
   is_window_covered_or_not_foreground
     \<lparr>winId = Inl (OtherException ''winId''), IsIconic = (\<lambda>h. Inl (OtherException ''IsIconic'')),
           GetForegroundWindow = Inl (OtherException ''GetForegroundWindow''),
           GetWindowRect = (\<lambda>h. Inl (OtherException ''GetWindowRect''))\<rparr>
     (Some 1) (Some 0) = Inr True"
  using tick_never_raises [of "\<lparr>winId = Inl (OtherException ''winId''), IsIconic = (\<lambda>h. Inl (OtherException ''IsIconic'')),
           GetForegroundWindow = Inl (OtherException ''GetForegroundWindow''),
           GetWindowRect = (\<lambda>h. Inl (OtherException ''GetWindowRect''))\<rparr>"
       "\<lparr>hwnd_parent = Some 1, rel_offset = (- 617, 7), isVisible = True, pos = (0, 0),
           shells = []\<rparr>" "Some 1" "Some 0"]
  by simp

subsection \<open>Claims about the program start\<close>




end
